theory Spec2Isabelle
  imports
    Main
    "HOL-Library.Char_ord"
    "HOL-Library.List_Lexorder"
    "HOL-Library.Sublist"
    "HOL-Library.Multiset"
begin

section \<open>Node health checks of the portal API: chain checker, sync checker, shared wrapper\<close>

text \<open>
  The development embeds three source files:
  \<^item> \<^verbatim>\<open>src/services/node-checker-wrapper.ts\<close> (\<^verbatim>\<open>cacheNodes\<close>, \<^verbatim>\<open>filterNodes\<close>,
    \<^verbatim>\<open>performChallenge\<close>),
  \<^item> \<^verbatim>\<open>src/services/chain-checker-new.ts\<close> (\<^verbatim>\<open>PocketChainChecker.check\<close>),
  \<^item> \<^verbatim>\<open>src/services/sync-checker.ts\<close> (\<^verbatim>\<open>SyncChecker.consensusFilter\<close>).

  Strings are byte lists (UTF-8), so \<^verbatim>\<open>Buffer.byteLength(s, 'utf8')\<close> is \<^term>\<open>length s\<close>.
  Every \<^verbatim>\<open>await\<close> is sequential composition: one call of a checker is evaluated at one
  instant \<open>now\<close> (seconds), which only the expiry of Redis keys observes. The store
  answers every call: a lost connection is not modelled. Calls of \<^verbatim>\<open>logger.log\<close> have no
  effect on any value below and are left out.
\<close>

subsection \<open>The JavaScript runtime: JSON text of arrays of strings\<close>

text \<open>
  \<^verbatim>\<open>JSON.stringify\<close> on an array of strings, with the escapes of ECMAScript's
  \<^verbatim>\<open>QuoteJSONString\<close>: the quotation mark, the backslash, the five short control escapes,
  and \<^verbatim>\<open>\u00XX\<close> for the other characters below \<^verbatim>\<open>0x20\<close>.
\<close>

definition hexdigit :: "nat \<Rightarrow> char" where
  "hexdigit n = ''0123456789abcdef'' ! (n mod 16)"

definition json_escape :: "char \<Rightarrow> string" where
  "json_escape c =
     (if c = CHR 0x22 then [CHR 0x5C, CHR 0x22]
      else if c = CHR 0x5C then [CHR 0x5C, CHR 0x5C]
      else if c = CHR 0x08 then [CHR 0x5C, CHR ''b'']
      else if c = CHR 0x0C then [CHR 0x5C, CHR ''f'']
      else if c = CHR 0x0A then [CHR 0x5C, CHR ''n'']
      else if c = CHR 0x0D then [CHR 0x5C, CHR ''r'']
      else if c = CHR 0x09 then [CHR 0x5C, CHR ''t'']
      else if (of_char c :: nat) < 32 then
        [CHR 0x5C, CHR ''u'', CHR ''0'', CHR ''0'',
         hexdigit ((of_char c :: nat) div 16), hexdigit (of_char c :: nat)]
      else [c])"

definition json_quote_body :: "string \<Rightarrow> string" where
  "json_quote_body s = concat (map json_escape s)"

definition JSON_quote :: "string \<Rightarrow> string" where
  "JSON_quote s = CHR 0x22 # json_quote_body s @ [CHR 0x22]"

text \<open>\<^verbatim>\<open>Array.prototype.join\<close>, which \<^verbatim>\<open>JSON.stringify\<close> performs on the elements.\<close>

fun join :: "string \<Rightarrow> string list \<Rightarrow> string" where
  "join sep [] = []"
| "join sep [x] = x"
| "join sep (x # y # ys) = x @ sep @ join sep (y # ys)"

definition JSON_stringify :: "string list \<Rightarrow> string" where
  "JSON_stringify ks = ''['' @ join '','' (map JSON_quote ks) @ '']''"

text \<open>
  \<^verbatim>\<open>JSON.parse\<close>, on the texts the checkers store: an array of string literals without
  white space. Any other text is \<^term>\<open>None\<close>: there the source throws a
  \<^verbatim>\<open>SyntaxError\<close>, or obtains a value that is not an array of strings.
\<close>

definition hexval :: "char \<Rightarrow> nat option" where
  "hexval c =
     (let n = (of_char c :: nat) in
      if 48 \<le> n \<and> n \<le> 57 then Some (n - 48)
      else if 97 \<le> n \<and> n \<le> 102 then Some (n - 87)
      else if 65 \<le> n \<and> n \<le> 70 then Some (n - 55)
      else None)"

definition unescape :: "char \<Rightarrow> char option" where
  "unescape e =
     (if e = CHR 0x22 then Some (CHR 0x22)
      else if e = CHR 0x5C then Some (CHR 0x5C)
      else if e = CHR ''/'' then Some (CHR ''/'')
      else if e = CHR ''b'' then Some (CHR 0x08)
      else if e = CHR ''f'' then Some (CHR 0x0C)
      else if e = CHR ''n'' then Some (CHR 0x0A)
      else if e = CHR ''r'' then Some (CHR 0x0D)
      else if e = CHR ''t'' then Some (CHR 0x09)
      else None)"

text \<open>
  The characters of a string literal after its opening quotation mark: the decoded string
  and the text after the closing quotation mark.
\<close>

fun unquote :: "string \<Rightarrow> (string \<times> string) option" where
  "unquote [] = None"
| "unquote (c # cs) =
     (if c = CHR 0x22 then Some ([], cs)
      else if c = CHR 0x5C then
        (case cs of
           [] \<Rightarrow> None
         | e # r \<Rightarrow>
             if e = CHR ''u'' then
               (case r of
                  a # b # h # l # r' \<Rightarrow>
                    (case (hexval a, hexval b, hexval h, hexval l) of
                       (Some 0, Some 0, Some x, Some y) \<Rightarrow>
                         map_option (\<lambda>(s, t). (char_of (16 * x + y) # s, t)) (unquote r')
                     | _ \<Rightarrow> None)
                | _ \<Rightarrow> None)
             else
               (case unescape e of
                  None \<Rightarrow> None
                | Some d \<Rightarrow> map_option (\<lambda>(s, t). (d # s, t)) (unquote r)))
      else if (of_char c :: nat) < 32 then None
      else map_option (\<lambda>(s, t). (c # s, t)) (unquote cs))"

lemma unquote_shorter: "unquote s = Some (k, t) \<Longrightarrow> length t < length s"
proof (induction "length s" arbitrary: s k t rule: less_induct)
  case less
  show ?case
  proof (cases s)
    case Nil
    with less.prems show ?thesis by simp
  next
    case (Cons c cs)
    have IH: "\<And>r a. length r < length s \<Longrightarrow> unquote r = Some (a, t) \<Longrightarrow> length t < length r"
      using less.hyps by blast
    from less.prems Cons show ?thesis
      by (auto split: if_splits list.splits option.splits nat.splits dest!: IH[rotated])
  qed
qed

text \<open>The elements of a non-empty array, after the first opening quotation mark.\<close>

function parse_items :: "string \<Rightarrow> string list option" where
  "parse_items s =
     (case unquote s of
        None \<Rightarrow> None
      | Some (k, t) \<Rightarrow>
          (case t of
             [] \<Rightarrow> None
           | d # t1 \<Rightarrow>
               if d = CHR '']'' \<and> t1 = [] then Some [k]
               else if d = CHR '','' then
                 (case t1 of
                    [] \<Rightarrow> None
                  | q # t2 \<Rightarrow>
                      if q = CHR 0x22 then map_option ((#) k) (parse_items t2) else None)
               else None))"
  by pat_completeness auto
termination
  by (relation "measure length") (auto dest: unquote_shorter)

declare parse_items.simps [simp del]

definition JSON_parse :: "string \<Rightarrow> string list option" where
  "JSON_parse s =
     (if s = ''[]'' then Some []
      else case s of
        b # q # r \<Rightarrow> if b = CHR ''['' \<and> q = CHR 0x22 then parse_items r else None
      | _ \<Rightarrow> None)"

subsection \<open>The Redis store\<close>

text \<open>
  A key holds a string until its expiry: \<^verbatim>\<open>set(key, value, 'EX', ttl)\<close> at time \<open>now\<close>
  keeps the value readable while the clock is below \<open>now + ttl\<close>; \<^verbatim>\<open>get\<close> of an absent or
  expired key is \<^verbatim>\<open>null\<close>.
\<close>

record entry =
  val :: string
  expiresAt :: nat

type_synonym Redis = "string \<rightharpoonup> entry"

definition redis_get :: "Redis \<Rightarrow> nat \<Rightarrow> string \<Rightarrow> string option" where
  "redis_get r now k =
     (case r k of
        None \<Rightarrow> None
      | Some e \<Rightarrow> if now < expiresAt e then Some (val e) else None)"

definition redis_set :: "Redis \<Rightarrow> nat \<Rightarrow> string \<Rightarrow> string \<Rightarrow> nat \<Rightarrow> Redis" where
  "redis_set r now k v ttl = r(k \<mapsto> \<lparr>val = v, expiresAt = now + ttl\<rparr>)"

text \<open>
  JavaScript's test \<^verbatim>\<open>if (x)\<close> on the result of \<^verbatim>\<open>get\<close>: \<^verbatim>\<open>null\<close> and the empty string are
  false.
\<close>

definition truthy :: "string option \<Rightarrow> bool" where
  "truthy x = (case x of None \<Rightarrow> False | Some s \<Rightarrow> s \<noteq> [])"

datatype exn = SyntaxError | TypeError

subsection \<open>Nodes, check outcomes, metric records\<close>

text \<open>
  Modelled from the spec: the \<^verbatim>\<open>Node\<close> type of \<^verbatim>\<open>@pokt-network/pocket-js\<close> is not under
  \<^verbatim>\<open>src/\<close>; section 3 of the specification gives a node the fields \<^verbatim>\<open>publicKey\<close>,
  \<^verbatim>\<open>serviceURL\<close> and \<^verbatim>\<open>serviceDomain\<close>, and the public key is its identity.
\<close>

record Node =
  publicKey :: string
  serviceURL :: string
  serviceDomain :: string

datatype Check = chain_check | sync_check

text \<open>
  An \<^verbatim>\<open>Error\<close> object, by what the checkers read of it: its \<^verbatim>\<open>message\<close>, and the text
  \<^verbatim>\<open>JSON.stringify\<close> gives for it.
\<close>

record ErrorObj =
  message :: string
  json :: string

text \<open>What a promise is rejected with, and the variable \<^verbatim>\<open>error: string | Error\<close>.\<close>

datatype Thrown = ThrownString string | ThrownError ErrorObj

datatype Response = RelayResponse string | ErrorResponse ErrorObj

text \<open>
  \<^verbatim>\<open>NodeCheckResponse<T>\<close> of \<^verbatim>\<open>node-checker.ts\<close> (not under \<^verbatim>\<open>src/\<close>), by the
  properties the checkers read: \<^verbatim>\<open>node\<close>, \<^verbatim>\<open>success\<close>, \<^verbatim>\<open>response\<close> and \<^verbatim>\<open>result\<close>.
\<close>

record 'r NodeCheckResponse =
  node :: Node
  success :: bool
  response :: Response
  result :: 'r

datatype 'r PromiseSettledResult = Rejected Thrown | Fulfilled "'r NodeCheckResponse"

text \<open>
  The parameters of a check that only reach the metric records. \<^verbatim>\<open>relayStart\<close> is the
  reading of \<^verbatim>\<open>process.hrtime()\<close> taken before the probes.
\<close>

record CheckRequest =
  requestID :: string
  applicationID :: string
  applicationPublicKey :: string
  blockchainID :: string
  relayStart :: "nat \<times> nat"

text \<open>
  The object \<^verbatim>\<open>metricLog\<close>. Its properties \<^verbatim>\<open>result\<close>, \<^verbatim>\<open>origin\<close>, \<^verbatim>\<open>sessionKey\<close> and the
  kind of check are the fields \<open>resultCode\<close>, \<open>metricOrigin\<close>, \<open>metricSessionKey\<close> and
  \<open>metricMethod\<close>.
\<close>

record MetricRecord = CheckRequest +
  serviceNode :: string
  resultCode :: nat
  delivered :: bool
  fallback :: bool
  metricMethod :: Check
  error :: string
  metricOrigin :: string
  data :: "string option"
  metricSessionKey :: string
  bytes :: nat

text \<open>
  The fields of a \<^verbatim>\<open>NodeCheckerWrapper\<close> that are plain data, with the constant
  \<^verbatim>\<open>MAX_RELAYS_ERROR\<close> it imports from \<^verbatim>\<open>utils/constants\<close> (not under \<^verbatim>\<open>src/\<close>).
\<close>

record NodeCheckerWrapper =
  sessionKey :: string
  origin :: string
  MAX_RELAYS_ERROR :: string

text \<open>\<^verbatim>\<open>this.pocketSession.sessionNodes\<close> of a chain checker.\<close>

record PocketChainChecker = NodeCheckerWrapper +
  sessionNodes :: "Node list"

text \<open>
  What a checker acts on: the Redis store, the records handed to
  \<^verbatim>\<open>metricsRecorder.recordMetric\<close>, the nodes handed to \<^verbatim>\<open>nodeChecker.chain\<close>, and the
  consensus relays sent by \<^verbatim>\<open>performChallenge\<close> (payload and blockchain).
\<close>

record world =
  redis :: Redis
  metrics :: "MetricRecord list"
  probed :: "Node list"
  challenges :: "(string \<times> string) list"

subsection \<open>\<^verbatim>\<open>node-checker-wrapper.ts\<close>\<close>

text \<open>
  \<^verbatim>\<open>cacheNodes\<close>: the cached public keys select the nodes to return; without a cached
  value, a lock returns the whole node list, and no lock sets one for 60 seconds and
  returns the empty list. The loop over \<^verbatim>\<open>nodes\<close> with \<^verbatim>\<open>includes\<close> is a \<^const>\<open>filter\<close>.
  In the second case the array returned is the caller's own.
\<close>

definition cacheNodes :: "nat \<Rightarrow> Node list \<Rightarrow> string \<Rightarrow> Redis \<Rightarrow> (exn + Node list) \<times> Redis" where
  "cacheNodes now nodes cacheKey r =
     (let CheckedNodesCached = redis_get r now cacheKey in
      if truthy CheckedNodesCached then
        (case Option.bind CheckedNodesCached JSON_parse of
           None \<Rightarrow> (Inl SyntaxError, r)
         | Some checkedNodesList \<Rightarrow>
             (Inr (filter (\<lambda>n. publicKey n \<in> set checkedNodesList) nodes), r))
      else
        let chainLock = redis_get r now (''lock-'' @ cacheKey) in
        if truthy chainLock then (Inr nodes, r)
        else (Inr [], redis_set r now (''lock-'' @ cacheKey) ''true'' 60))"

text \<open>
  Modelled from the spec: \<^verbatim>\<open>removeNodeFromSession\<close> of \<^verbatim>\<open>utils/cache\<close> is not under
  \<^verbatim>\<open>src/\<close>. Section 6 of the specification gives the entry under
  \<^verbatim>\<open>session-{sessionKey}\<close> as the JSON array of removed public keys, with an expiry managed
  elsewhere, and section 5 makes the removal idempotent; the repository's chain-checker test
  seeds the entry with the empty array and finds one key in it after one failure with
  \<^verbatim>\<open>MAX_RELAYS_ERROR\<close>. So the helper appends the key to the array unless it is there
  already, and keeps the expiry. A missing, expired or unreadable entry is left as it is.
\<close>

definition removeNodeFromSession :: "Redis \<Rightarrow> nat \<Rightarrow> string \<Rightarrow> string \<Rightarrow> Redis" where
  "removeNodeFromSession r now sKey nodePubKey =
     (case r (''session-'' @ sKey) of
        None \<Rightarrow> r
      | Some e \<Rightarrow>
          if now < expiresAt e then
            (case JSON_parse (val e) of
               None \<Rightarrow> r
             | Some removed \<Rightarrow>
                 if nodePubKey \<in> set removed then r
                 else r(''session-'' @ sKey \<mapsto>
                          e\<lparr>val := JSON_stringify (removed @ [nodePubKey])\<rparr>))
          else r)"

text \<open>
  The variables \<^verbatim>\<open>error\<close> and \<^verbatim>\<open>errorMsg\<close> of \<^verbatim>\<open>filterNodes\<close> after their assignment, when
  the outcome \<^verbatim>\<open>failed\<close>: a rejection gives its reason to both, an \<^verbatim>\<open>Error\<close> response gives
  the object and its message.
\<close>

definition failure :: "'r PromiseSettledResult \<Rightarrow> (Thrown \<times> Thrown) option" where
  "failure nodeCheckPromise =
     (case nodeCheckPromise of
        Rejected reason \<Rightarrow> Some (reason, reason)
      | Fulfilled v \<Rightarrow>
          (case response v of
             ErrorResponse e \<Rightarrow> Some (ThrownError e, ThrownString (message e))
           | RelayResponse _ \<Rightarrow> None))"

text \<open>
  \<^verbatim>\<open>errorMsg\<close> after \<^verbatim>\<open>if (typeof error === 'object') errorMsg = JSON.stringify(error)\<close>.
\<close>

definition stringified :: "Thrown \<Rightarrow> Thrown \<Rightarrow> string" where
  "stringified err errorMsg =
     (case err of
        ThrownError e \<Rightarrow> json e
      | ThrownString _ \<Rightarrow> (case errorMsg of ThrownString s \<Rightarrow> s | ThrownError e \<Rightarrow> json e))"

text \<open>The \<^verbatim>\<open>switch\<close> that sets \<^verbatim>\<open>metricLog.bytes\<close>.\<close>

definition metricBytes :: "Check \<Rightarrow> string \<Rightarrow> nat" where
  "metricBytes checkType errorMsg =
     (case checkType of
        chain_check \<Rightarrow> length ''WRONG CHAIN''
      | sync_check \<Rightarrow> length (if errorMsg \<noteq> [] then errorMsg else ''SYNC-CHECK''))"

definition metricLog ::
  "('a NodeCheckerWrapper_scheme) \<Rightarrow> Check \<Rightarrow> Node \<Rightarrow> CheckRequest \<Rightarrow> string \<Rightarrow> MetricRecord" where
  "metricLog this checkType n req errorMsg =
     \<lparr>requestID = requestID req,
      applicationID = applicationID req,
      applicationPublicKey = applicationPublicKey req,
      blockchainID = blockchainID req,
      relayStart = relayStart req,
      serviceNode = publicKey n,
      resultCode = 500,
      delivered = False,
      fallback = False,
      metricMethod = checkType,
      error = errorMsg,
      metricOrigin = origin this,
      data = None,
      metricSessionKey = sessionKey this,
      bytes = metricBytes checkType errorMsg\<rparr>"

text \<open>
  One iteration of the loop of \<^verbatim>\<open>filterNodes\<close>: the responses it pushes on
  \<^verbatim>\<open>filteredNodes\<close> (none or one) and the effects. The comparison
  \<^verbatim>\<open>errorMsg === MAX_RELAYS_ERROR\<close> is strict, so an object is never equal to the constant.
  \<^verbatim>\<open>getNodeNetworkData\<close> (\<^verbatim>\<open>utils/cache\<close>, not under \<^verbatim>\<open>src/\<close>) provides two fields of the
  log lines and nothing else to the loop; what it may keep in the store for itself is not
  modelled.
\<close>

definition filterNode ::
  "('a NodeCheckerWrapper_scheme) \<Rightarrow> nat \<Rightarrow> Check \<Rightarrow> Node \<Rightarrow> 'r PromiseSettledResult \<Rightarrow>
     CheckRequest \<Rightarrow> world \<Rightarrow> 'r NodeCheckResponse list \<times> world" where
  "filterNode this now checkType n nodeCheckPromise req w =
     (case failure nodeCheckPromise of
        Some (err, errorMsg) \<Rightarrow>
          (let w1 = (if errorMsg = ThrownString (MAX_RELAYS_ERROR this)
                     then w\<lparr>redis := removeNodeFromSession (redis w) now (sessionKey this) (publicKey n)\<rparr>
                     else w);
               errorMsg' = stringified err errorMsg
           in ([], w1\<lparr>metrics := metrics w1 @ [metricLog this checkType n req errorMsg']\<rparr>))
      | None \<Rightarrow>
          (case nodeCheckPromise of
             Fulfilled v \<Rightarrow> if \<not> success v then ([], w) else ([v], w)
           | Rejected _ \<Rightarrow> ([], w)))"

text \<open>
  \<^verbatim>\<open>filterNodes\<close>: the loop runs over the entries of \<^verbatim>\<open>nodesPromise\<close> and reads
  \<^verbatim>\<open>nodes[idx]\<close>; past the end of \<^verbatim>\<open>nodes\<close> that is \<^verbatim>\<open>undefined\<close>, and reading its
  \<^verbatim>\<open>publicKey\<close> throws a \<^verbatim>\<open>TypeError\<close>.
\<close>

fun filterNodes ::
  "('a NodeCheckerWrapper_scheme) \<Rightarrow> nat \<Rightarrow> Check \<Rightarrow> Node list \<Rightarrow> 'r PromiseSettledResult list \<Rightarrow>
     CheckRequest \<Rightarrow> world \<Rightarrow> (exn + 'r NodeCheckResponse list) \<times> world" where
  "filterNodes this now checkType nodes [] req w = (Inr [], w)"
| "filterNodes this now checkType [] (p # ps) req w = (Inl TypeError, w)"
| "filterNodes this now checkType (n # ns) (p # ps) req w =
     (case filterNode this now checkType n p req w of
        (pushed, w1) \<Rightarrow>
          (case filterNodes this now checkType ns ps req w1 of
             (Inl e, w2) \<Rightarrow> (Inl e, w2)
           | (Inr filteredNodes, w2) \<Rightarrow> (Inr (pushed @ filteredNodes), w2)))"

text \<open>
  \<^verbatim>\<open>performChallenge\<close>: one consensus relay of the payload to the blockchain; its response
  is only logged.
\<close>

definition performChallenge :: "string \<Rightarrow> string \<Rightarrow> world \<Rightarrow> world" where
  "performChallenge dat bcID w = w\<lparr>challenges := challenges w @ [(dat, bcID)]\<rparr>"

subsection \<open>\<^verbatim>\<open>chain-checker-new.ts\<close>\<close>

text \<open>
  \<^verbatim>\<open>PocketChainChecker.check\<close>. Two parts of it are not under \<^verbatim>\<open>src/\<close> and are parameters:
  \<open>hashBlockchainNodes\<close> (\<^verbatim>\<open>utils/helpers\<close>), and \<open>chain\<close>, the settled outcome of
  \<^verbatim>\<open>nodeChecker.chain(node, data, blockchainID, pocketAAT, chainID)\<close> for each node
  (\<^verbatim>\<open>Promise.allSettled\<close> waits for all of them). \<^verbatim>\<open>checkedNodes.push\<close> extends the list
  \<^verbatim>\<open>cacheNodes\<close> returned, which is empty at that point.
\<close>

definition check ::
  "(string \<Rightarrow> Node list \<Rightarrow> string) \<Rightarrow> (Node \<Rightarrow> 'r PromiseSettledResult) \<Rightarrow> PocketChainChecker \<Rightarrow>
     nat \<Rightarrow> Node list \<Rightarrow> string \<Rightarrow> CheckRequest \<Rightarrow> world \<Rightarrow> (exn + Node list) \<times> world" where
  "check hashBlockchainNodes chain this now nodes dat req w =
     (let sessionHash = hashBlockchainNodes (blockchainID req) (sessionNodes this);
          checkedNodesKey = ''chain-check-'' @ sessionHash
      in case cacheNodes now nodes checkedNodesKey (redis w) of
           (Inl e, r1) \<Rightarrow> (Inl e, w\<lparr>redis := r1\<rparr>)
         | (Inr checkedNodes, r1) \<Rightarrow>
             if length checkedNodes > 0 then (Inr checkedNodes, w\<lparr>redis := r1\<rparr>)
             else
               (let nodeChainChecks = map chain nodes;
                    w1 = w\<lparr>redis := r1, probed := probed w @ nodes\<rparr>
                in case filterNodes this now chain_check nodes nodeChainChecks req w1 of
                     (Inl e, w2) \<Rightarrow> (Inl e, w2)
                   | (Inr filteredNodes, w2) \<Rightarrow>
                       (let checkedNodes' = checkedNodes @ map node filteredNodes;
                            checkedNodesList = map publicKey checkedNodes';
                            w3 = w2\<lparr>redis :=
                                   redis_set (redis w2) now checkedNodesKey
                                     (JSON_stringify checkedNodesList)
                                     (if length checkedNodes' > 0 then 600 else 30)\<rparr>;
                            w4 = (if length checkedNodes' < length nodes
                                  then performChallenge dat (blockchainID req) w3 else w3)
                        in (Inr checkedNodes', w4))))"

subsection \<open>\<^verbatim>\<open>sync-checker.ts\<close>\<close>

text \<open>
  \<^verbatim>\<open>nodes.sort\<close> with the comparator on \<^verbatim>\<open>publicKey\<close>: \<^verbatim>\<open>Array.prototype.sort\<close> is stable
  and sorts the array in place. Strings compare by their code units, here bytes.
\<close>

definition sortNodes :: "Node list \<Rightarrow> Node list" where
  "sortNodes nodes = sort_key publicKey nodes"

text \<open>
  \<^verbatim>\<open>JSON.stringify(nodes, (k, v) => k != 'publicKey' ? v : undefined)\<close>: the replacer drops
  the property \<^verbatim>\<open>publicKey\<close> of every node.
\<close>

definition nodeJSON :: "Node \<Rightarrow> string" where
  \<open>nodeJSON n =
     ''{"serviceURL":'' @ JSON_quote (serviceURL n) @
     '',"serviceDomain":'' @ JSON_quote (serviceDomain n) @ ''}''\<close>

definition nodesJSON :: "Node list \<Rightarrow> string" where
  "nodesJSON nodes = ''['' @ join '','' (map nodeJSON nodes) @ '']''"

text \<open>
  The constant \<^verbatim>\<open>syncedNodesKey\<close>, from the array that \<^verbatim>\<open>nodes.sort\<close> returns. \<open>sha256\<close>
  is \<^verbatim>\<open>crypto.createHash('sha256').update(s).digest('hex')\<close>, a parameter.
\<close>

definition syncedNodesKey :: "(string \<Rightarrow> string) \<Rightarrow> string \<Rightarrow> Node list \<Rightarrow> string" where
  "syncedNodesKey sha256 blockchain sortedNodes =
     blockchain @ ''-'' @ sha256 (nodesJSON sortedNodes)"

text \<open>
  \<^verbatim>\<open>SyncChecker.consensusFilter\<close>. The result has three parts: what the call returns, the
  caller's array \<^verbatim>\<open>nodes\<close> after the call (sorted in place by the first statement), and
  the store. The loop of the fresh round pushes every node and every public key.
\<close>

definition consensusFilter ::
  "(string \<Rightarrow> string) \<Rightarrow> nat \<Rightarrow> Node list \<Rightarrow> string \<Rightarrow> Redis \<Rightarrow>
     (exn + Node list) \<times> Node list \<times> Redis" where
  "consensusFilter sha256 now nodes0 blockchain r =
     (let nodes = sortNodes nodes0;
          key = syncedNodesKey sha256 blockchain nodes;
          syncedNodesCached = redis_get r now key
      in if truthy syncedNodesCached then
           (case Option.bind syncedNodesCached JSON_parse of
              None \<Rightarrow> (Inl SyntaxError, nodes, r)
            | Some syncedNodesList \<Rightarrow>
                (Inr (filter (\<lambda>n. publicKey n \<in> set syncedNodesList) nodes), nodes, r))
         else
           let syncLock = redis_get r now (''lock-'' @ key) in
           if truthy syncLock then (Inr nodes, nodes, r)
           else
             (let r1 = redis_set r now (''lock-'' @ key) ''true'' 10;
                  syncedNodes = nodes;
                  syncedNodesList = map publicKey nodes;
                  r2 = redis_set r1 now key (JSON_stringify syncedNodesList) 300
              in (Inr syncedNodes, nodes, r2)))"

subsection \<open>Notions used in the statements\<close>

text \<open>
  An outcome passes when \<^verbatim>\<open>filterNodes\<close> reaches its last line with it: the promise is
  fulfilled, the response is no \<^verbatim>\<open>Error\<close>, and \<^verbatim>\<open>success\<close> holds. \<open>kept\<close> is what the
  iteration pushes, \<open>recorded\<close> what the iteration hands to the metrics recorder. An
  outcome is a \<open>maxRelays\<close> failure when the promise is rejected with the string
  \<^verbatim>\<open>MAX_RELAYS_ERROR\<close>, or fulfilled with an \<^verbatim>\<open>Error\<close> response whose message is that
  string; a promise rejected with an \<^verbatim>\<open>Error\<close> object is not one, whatever its message.
  \<open>removals\<close> is the store after \<^verbatim>\<open>removeNodeFromSession\<close> for the \<open>maxRelays\<close> failures of a
  round, in the order of the nodes.
\<close>

definition passes :: "'r PromiseSettledResult \<Rightarrow> bool" where
  "passes p =
     (case p of
        Rejected _ \<Rightarrow> False
      | Fulfilled v \<Rightarrow> (case response v of ErrorResponse _ \<Rightarrow> False | RelayResponse _ \<Rightarrow> success v))"

definition kept :: "'r PromiseSettledResult \<Rightarrow> 'r NodeCheckResponse list" where
  "kept p = (case p of Rejected _ \<Rightarrow> [] | Fulfilled v \<Rightarrow> if passes p then [v] else [])"

definition maxRelays :: "('a NodeCheckerWrapper_scheme) \<Rightarrow> 'r PromiseSettledResult \<Rightarrow> bool" where
  "maxRelays this p =
     (case p of
        Rejected reason \<Rightarrow> reason = ThrownString (MAX_RELAYS_ERROR this)
      | Fulfilled v \<Rightarrow>
          (case response v of
             ErrorResponse e \<Rightarrow> message e = MAX_RELAYS_ERROR this
           | RelayResponse _ \<Rightarrow> False))"

definition recorded ::
  "('a NodeCheckerWrapper_scheme) \<Rightarrow> Check \<Rightarrow> CheckRequest \<Rightarrow> Node \<Rightarrow> 'r PromiseSettledResult \<Rightarrow>
     MetricRecord list" where
  "recorded this checkType req n p =
     (case failure p of
        None \<Rightarrow> []
      | Some (err, errorMsg) \<Rightarrow> [metricLog this checkType n req (stringified err errorMsg)])"

definition removals ::
  "('a NodeCheckerWrapper_scheme) \<Rightarrow> nat \<Rightarrow> (Node \<times> 'r PromiseSettledResult) list \<Rightarrow> Redis \<Rightarrow> Redis" where
  "removals this now nps r =
     fold (\<lambda>(n, p) r'. if maxRelays this p
                        then removeNodeFromSession r' now (sessionKey this) (publicKey n) else r')
       nps r"

text \<open>The key of the chain check, and the nodes of a round whose outcome passes.\<close>

definition chainKey :: "(string \<Rightarrow> Node list \<Rightarrow> string) \<Rightarrow> PocketChainChecker \<Rightarrow> CheckRequest \<Rightarrow> string" where
  "chainKey hashBlockchainNodes this req =
     ''chain-check-'' @ hashBlockchainNodes (blockchainID req) (sessionNodes this)"

definition survivors :: "(Node \<Rightarrow> 'r PromiseSettledResult) \<Rightarrow> Node list \<Rightarrow> Node list" where
  "survivors chain nodes = map node (concat (map (\<lambda>n. kept (chain n)) nodes))"

text \<open>
  The text an error outcome leaves in its metric record, and the pairs of a round whose
  outcome is an error.
\<close>

definition errorText :: "'r PromiseSettledResult \<Rightarrow> string" where
  "errorText p = (case failure p of None \<Rightarrow> [] | Some (err, errorMsg) \<Rightarrow> stringified err errorMsg)"

definition errored :: "(Node \<times> 'r PromiseSettledResult) list \<Rightarrow> (Node \<times> 'r PromiseSettledResult) list" where
  "errored nps = filter (\<lambda>(n, p). failure p \<noteq> None) nps"


subsection \<open>Example inputs\<close>

text \<open>
  Two nodes of one session, a chain checker for it, a request, a store with no key, and
  two probers: one that finds every node on the expected chain, one that finds every node
  on another chain.
\<close>

definition nodeA :: Node where
  "nodeA = \<lparr>publicKey = ''aa'', serviceURL = ''https://a.example'', serviceDomain = ''a.example''\<rparr>"

definition nodeB :: Node where
  "nodeB = \<lparr>publicKey = ''bb'', serviceURL = ''https://b.example'', serviceDomain = ''b.example''\<rparr>"

definition checker :: PocketChainChecker where
  "checker = \<lparr>sessionKey = ''s1'', origin = ''portal'', MAX_RELAYS_ERROR = ''max relays'',
              sessionNodes = [nodeA, nodeB]\<rparr>"

definition request :: CheckRequest where
  "request = \<lparr>requestID = ''r1'', applicationID = ''app'', applicationPublicKey = ''apk'',
              blockchainID = ''0021'', relayStart = (0, 0)\<rparr>"

definition sessionHash :: "string \<Rightarrow> Node list \<Rightarrow> string" where
  "sessionHash bc ns = bc @ concat (map publicKey ns)"

definition emptyWorld :: world where
  "emptyWorld = \<lparr>redis = Map.empty, metrics = [], probed = [], challenges = []\<rparr>"

definition onChain :: "Node \<Rightarrow> nat PromiseSettledResult" where
  "onChain n = Fulfilled \<lparr>node = n, success = True, response = RelayResponse ''0x64'', result = 100\<rparr>"

definition offChain :: "Node \<Rightarrow> nat PromiseSettledResult" where
  "offChain n = Fulfilled \<lparr>node = n, success = False, response = RelayResponse ''0xC8'', result = 200\<rparr>"

text \<open>
  The store after a round in which no node passed, and a prober that finds only the
  second node on the expected chain.
\<close>

definition emptyResultWorld :: world where
  "emptyResultWorld =
     \<lparr>redis = [''chain-check-0021aabb'' \<mapsto> \<lparr>val = ''[]'', expiresAt = 30\<rparr>],
      metrics = [], probed = [], challenges = []\<rparr>"

definition onlyB :: "Node \<Rightarrow> nat PromiseSettledResult" where
  "onlyB n = (if publicKey n = ''bb'' then onChain n else offChain n)"

text \<open>
  Stores in which a check is in progress: the lock of the chain check of the session, and
  the lock of the sync check of the two nodes (with the identity in place of the digest).
\<close>

definition lockedWorld :: world where
  "lockedWorld =
     \<lparr>redis = [''lock-chain-check-0021aabb'' \<mapsto> \<lparr>val = ''true'', expiresAt = 60\<rparr>],
      metrics = [], probed = [], challenges = []\<rparr>"

definition lockedSyncStore :: Redis where
  "lockedSyncStore =
     [''lock-'' @ syncedNodesKey (\<lambda>s. s) ''0021'' [nodeA, nodeB] \<mapsto> \<lparr>val = ''true'', expiresAt = 10\<rparr>]"



lemmas example_defs = nodeA_def nodeB_def checker_def request_def sessionHash_def emptyWorld_def
  onChain_def offChain_def

lemmas eval_defs = check_def cacheNodes_def redis_get_def redis_set_def truthy_def filterNode_def
  failure_def performChallenge_def Let_def

section \<open>Properties\<close>

subsection \<open>JSON text is read back as written\<close>

lemma hexval_hexdigit_all: "list_all (\<lambda>m. hexval (hexdigit m) = Some m) [0..<16]"
  by code_simp

lemma hexval_hexdigit_less: "m < 16 \<Longrightarrow> hexval (hexdigit m) = Some m"
  using hexval_hexdigit_all by (simp add: list_all_iff)

lemma hexval_hexdigit: "hexval (hexdigit n) = Some (n mod 16)"
proof -
  have "hexdigit n = hexdigit (n mod 16)" by (simp add: hexdigit_def)
  then show ?thesis by (simp add: hexval_hexdigit_less)
qed

lemma unquote_escape_u:
  assumes "c \<noteq> CHR 0x22" "c \<noteq> CHR 0x5C" "(of_char c :: nat) < 32"
  shows "unquote (CHR 0x5C # CHR ''u'' # CHR ''0'' # CHR ''0'' #
         hexdigit ((of_char c :: nat) div 16) # hexdigit (of_char c :: nat) # rest)
       = map_option (\<lambda>(s, t). (c # s, t)) (unquote rest)"
proof -
  let ?n = "of_char c :: nat"
  have d: "hexval (hexdigit (?n div 16)) = Some (?n div 16)"
    using assms(3) by (simp add: hexval_hexdigit)
  have l: "hexval (hexdigit ?n) = Some (?n mod 16)" by (rule hexval_hexdigit)
  have e: "char_of (16 * (?n div 16) + ?n mod 16) = c" by simp
  have z: "hexval (CHR ''0'') = Some 0" by (simp add: hexval_def)
  show ?thesis
    by (simp only: unquote.simps list.case if_True if_False d l z e prod.case option.case nat.case char.inject refl simp_thms)
qed

lemma unquote_escape:
  "unquote (json_escape c @ rest) = map_option (\<lambda>(s, t). (c # s, t)) (unquote rest)"
proof (cases "c = CHR 0x22 \<or> c = CHR 0x5C \<or> c = CHR 0x08 \<or> c = CHR 0x0C \<or> c = CHR 0x0A
              \<or> c = CHR 0x0D \<or> c = CHR 0x09")
  case True
  then show ?thesis
    by (elim disjE) (simp_all add: json_escape_def unescape_def)
next
  case False
  show ?thesis
  proof (cases "(of_char c :: nat) < 32")
    case True
    with False unquote_escape_u[of c rest] show ?thesis
      by (simp add: json_escape_def)
  next
    case ge: False
    with False show ?thesis
      by (simp add: json_escape_def)
  qed
qed

lemma unquote_body: "unquote (json_quote_body s @ CHR 0x22 # t) = Some (s, t)"
proof (induction s)
  case Nil
  show ?case by (simp add: json_quote_body_def)
next
  case (Cons c s)
  have "json_quote_body (c # s) @ CHR 0x22 # t = json_escape c @ (json_quote_body s @ CHR 0x22 # t)"
    by (simp add: json_quote_body_def)
  then show ?case
    by (simp only: unquote_escape Cons.IH option.map prod.case)
qed

lemma parse_items_elems:
  "parse_items
     (json_quote_body k @ CHR 0x22 #
      concat (map (\<lambda>x. CHR '','' # CHR 0x22 # json_quote_body x @ [CHR 0x22]) ks) @ '']'')
     = Some (k # ks)"
proof (induction ks arbitrary: k)
  case Nil
  show ?case by (subst parse_items.simps) (simp add: unquote_body del: unquote.simps)
next
  case (Cons a ks)
  show ?case
    by (subst parse_items.simps) (simp add: unquote_body Cons.IH del: unquote.simps)
qed

lemma join_quote:
  "join '','' (JSON_quote k # map JSON_quote ks) =
     CHR 0x22 # json_quote_body k @ CHR 0x22 #
     concat (map (\<lambda>x. CHR '','' # CHR 0x22 # json_quote_body x @ [CHR 0x22]) ks)"
  by (induction ks arbitrary: k) (simp_all add: JSON_quote_def)

lemma JSON_parse_stringify: "JSON_parse (JSON_stringify ks) = Some ks"
proof (cases ks)
  case Nil
  then show ?thesis by (simp add: JSON_parse_def JSON_stringify_def)
next
  case (Cons k ks')
  then show ?thesis
    by (simp add: JSON_parse_def JSON_stringify_def join_quote parse_items_elems del: unquote.simps)
qed

lemma JSON_stringify_truthy: "JSON_stringify ks \<noteq> []"
  by (simp add: JSON_stringify_def)

subsection \<open>The loop of \<^verbatim>\<open>filterNodes\<close> and the three exits of \<^verbatim>\<open>cacheNodes\<close>\<close>

lemma filterNode_eq:
  "filterNode this now checkType n p req w =
     (kept p,
      w\<lparr>redis := (if maxRelays this p
                   then removeNodeFromSession (redis w) now (sessionKey this) (publicKey n)
                   else redis w),
        metrics := metrics w @ recorded this checkType req n p\<rparr>)"
  by (cases p)
     (auto simp: filterNode_def kept_def passes_def maxRelays_def recorded_def failure_def Let_def
           split: Response.splits Thrown.splits)

lemma filterNodes_eq:
  "length ps \<le> length nodes \<Longrightarrow>
   filterNodes this now checkType nodes ps req w =
     (Inr (concat (map kept ps)),
      w\<lparr>redis := removals this now (zip nodes ps) (redis w),
        metrics := metrics w @ concat (map (\<lambda>(n, p). recorded this checkType req n p) (zip nodes ps))\<rparr>)"
proof (induction ps arbitrary: nodes w)
  case Nil
  show ?case by (simp add: removals_def)
next
  case (Cons p ps)
  then obtain n ns where nodes: "nodes = n # ns" by (cases nodes) auto
  with Cons.prems have "length ps \<le> length ns" by simp
  from Cons.IH[OF this] show ?case
    by (simp add: nodes filterNode_eq removals_def)
qed

lemma cacheNodes_fresh:
  "\<not> truthy (redis_get r now k) \<Longrightarrow> \<not> truthy (redis_get r now (''lock-'' @ k)) \<Longrightarrow>
   cacheNodes now nodes k r = (Inr [], redis_set r now (''lock-'' @ k) ''true'' 60)"
  by (simp add: cacheNodes_def Let_def)

lemma cacheNodes_locked:
  "\<not> truthy (redis_get r now k) \<Longrightarrow> truthy (redis_get r now (''lock-'' @ k)) \<Longrightarrow>
   cacheNodes now nodes k r = (Inr nodes, r)"
  by (simp add: cacheNodes_def Let_def)

lemma cacheNodes_cached:
  "redis_get r now k = Some s \<Longrightarrow> s \<noteq> [] \<Longrightarrow> JSON_parse s = Some ks \<Longrightarrow>
   cacheNodes now nodes k r = (Inr (filter (\<lambda>n. publicKey n \<in> set ks) nodes), r)"
  by (simp add: cacheNodes_def Let_def truthy_def)

lemma length_kept: "length (kept p) = (if passes p then 1 else 0)"
  by (cases p) (simp_all add: kept_def passes_def)

lemma length_survivors: "length (survivors chain nodes) = length (filter (\<lambda>n. passes (chain n)) nodes)"
  by (induction nodes) (simp_all add: survivors_def length_kept)

lemma length_filter_full: "(length (filter P xs) = length xs) = (\<forall>x\<in>set xs. P x)"
proof (induction xs)
  case Nil
  show ?case by simp
next
  case (Cons x xs)
  have le: "length (filter P xs) \<le> length xs" by (rule length_filter_le)
  show ?case
  proof (cases "P x")
    case True
    with Cons show ?thesis by simp
  next
    case False
    from le have "length (filter P xs) \<noteq> Suc (length xs)" by linarith
    with False show ?thesis by simp
  qed
qed

lemma survivors_all: "(length (survivors chain nodes) = length nodes) = (\<forall>n\<in>set nodes. passes (chain n))"
  by (simp add: length_survivors length_filter_full)

lemma survivors_le: "length (survivors chain nodes) \<le> length nodes"
  by (simp add: length_survivors)

lemma check_fresh:
  assumes "\<not> truthy (redis_get (redis w) now (chainKey h this req))"
    and "\<not> truthy (redis_get (redis w) now (''lock-'' @ chainKey h this req))"
  shows "check h chain this now nodes dat req w =
     (Inr (survivors chain nodes),
      w\<lparr>redis :=
          redis_set
            (removals this now (zip nodes (map chain nodes))
               (redis_set (redis w) now (''lock-'' @ chainKey h this req) ''true'' 60))
            now (chainKey h this req)
            (JSON_stringify (map publicKey (survivors chain nodes)))
            (if survivors chain nodes \<noteq> [] then 600 else 30),
        metrics := metrics w @
          concat (map (\<lambda>(n, p). recorded this chain_check req n p) (zip nodes (map chain nodes))),
        probed := probed w @ nodes,
        challenges := challenges w @
          (if length (survivors chain nodes) < length nodes then [(dat, blockchainID req)] else [])\<rparr>)"
  using assms
  by (simp add: check_def Let_def cacheNodes_fresh[unfolded chainKey_def] chainKey_def
        filterNodes_eq survivors_def performChallenge_def comp_def)

subsection \<open>The consensus challenge\<close>

text \<open>
  C1. When a call of \<^verbatim>\<open>check\<close> finds neither a cached value nor a lock, it performs a
  probing round and returns the nodes that passed; it sends the consensus relay exactly
  when fewer nodes passed than were given, that is when some node did not pass, and so
  never when all nodes pass. In particular the relay is also sent when no node passed.
\<close>

theorem C1_challenge_iff_some_node_fails:
  assumes "\<not> truthy (redis_get (redis w) now (chainKey h this req))"
    and "\<not> truthy (redis_get (redis w) now (''lock-'' @ chainKey h this req))"
    and "check h chain this now nodes dat req w = (r, w')"
  shows "\<exists>res. r = Inr res \<and> length res \<le> length nodes
           \<and> challenges w' = challenges w @ (if length res < length nodes then [(dat, blockchainID req)] else [])
           \<and> (length res < length nodes) = (\<exists>n\<in>set nodes. \<not> passes (chain n))"
proof -
  let ?s = "survivors chain nodes"
  from assms(3) have r: "r = Inr ?s"
    and c: "challenges w' = challenges w @ (if length ?s < length nodes then [(dat, blockchainID req)] else [])"
    unfolding check_fresh[OF assms(1,2)] by auto
  have le: "length ?s \<le> length nodes" by (rule survivors_le)
  have "(length ?s < length nodes) = (length ?s \<noteq> length nodes)" using le by linarith
  also have "\<dots> = (\<exists>n\<in>set nodes. \<not> passes (chain n))" by (simp add: survivors_all)
  finally show ?thesis using r c le by blast
qed

theorem C1_counterexample:
  "fst (check sessionHash offChain checker 0 [nodeA] ''{}'' request emptyWorld) = Inr []
   \<and> challenges (snd (check sessionHash offChain checker 0 [nodeA] ''{}'' request emptyWorld))
       = [(''{}'', ''0021'')]
   \<and> challenges emptyWorld = []
   \<and> \<not> (0 < length ([] :: Node list) \<and> length ([] :: Node list) < length [nodeA])"
  by (simp add: eval_defs example_defs)

theorem C1_witness:
  "fst (check sessionHash onlyB checker 0 [nodeA, nodeB] ''{}'' request emptyWorld) = Inr [nodeB]
   \<and> length [nodeB] < length [nodeA, nodeB]
   \<and> \<not> passes (onlyB nodeA)
   \<and> challenges (snd (check sessionHash onlyB checker 0 [nodeA, nodeB] ''{}'' request emptyWorld))
       = challenges emptyWorld @ [(''{}'', blockchainID request)]"
proof -
  have a: "\<not> truthy (redis_get (redis emptyWorld) 0 (chainKey sessionHash checker request))"
    by (simp add: truthy_def redis_get_def emptyWorld_def)
  have b: "\<not> truthy (redis_get (redis emptyWorld) 0 (''lock-'' @ chainKey sessionHash checker request))"
    by (simp add: truthy_def redis_get_def emptyWorld_def)
  have f: "fst (check sessionHash onlyB checker 0 [nodeA, nodeB] ''{}'' request emptyWorld) = Inr [nodeB]"
    by (simp add: eval_defs example_defs onlyB_def)
  have p: "\<not> passes (onlyB nodeA)"
    by (simp add: passes_def onlyB_def offChain_def nodeA_def)
  from C1_challenge_iff_some_node_fails[OF a b surjective_pairing, of onlyB "[nodeA, nodeB]" "''{}''"]
  obtain res where "fst (check sessionHash onlyB checker 0 [nodeA, nodeB] ''{}'' request emptyWorld) = Inr res"
    and "challenges (snd (check sessionHash onlyB checker 0 [nodeA, nodeB] ''{}'' request emptyWorld))
       = challenges emptyWorld @ (if length res < length [nodeA, nodeB] then [(''{}'', blockchainID request)] else [])"
    by blast
  with f p show ?thesis by simp
qed

subsection \<open>Metric records\<close>

lemma recorded_errored:
  "concat (map (\<lambda>(n, p). recorded this checkType req n p) nps) =
     map (\<lambda>(n, p). metricLog this checkType n req (errorText p)) (errored nps)"
  by (induction nps) (auto simp: recorded_def errored_def errorText_def split: option.splits)

text \<open>
  C2. A round of \<^verbatim>\<open>filterNodes\<close> hands the metrics recorder exactly one record for every
  node whose outcome is an error (a rejected promise or an \<^verbatim>\<open>Error\<close> response), in the
  order of the nodes, and none for any other node, whether it passed or not. Each record
  names its node, has result 500, and counts the bytes of \<^verbatim>\<open>WRONG CHAIN\<close> for a chain
  check, and for a sync check the bytes of its error text, or of \<^verbatim>\<open>SYNC-CHECK\<close> when that
  text is empty.
\<close>

theorem C2_one_record_per_error_outcome:
  assumes "length ps = length nodes"
    and "filterNodes this now checkType nodes ps req w = (r, w')"
  shows "\<exists>new. metrics w' = metrics w @ new
           \<and> map serviceNode new = map (\<lambda>(n, p). publicKey n) (errored (zip nodes ps))
           \<and> map error new = map (\<lambda>(n, p). errorText p) (errored (zip nodes ps))
           \<and> (\<forall>m\<in>set new. resultCode m = 500 \<and> metricMethod m = checkType
                 \<and> bytes m =
                     (case checkType of
                        chain_check \<Rightarrow> length ''WRONG CHAIN''
                      | sync_check \<Rightarrow> length (if error m = [] then ''SYNC-CHECK'' else error m)))"
proof -
  let ?new = "map (\<lambda>(n, p). metricLog this checkType n req (errorText p)) (errored (zip nodes ps))"
  from assms have "metrics w' = metrics w @ ?new"
    by (auto simp: filterNodes_eq recorded_errored)
  moreover have "map serviceNode ?new = map (\<lambda>(n, p). publicKey n) (errored (zip nodes ps))"
    by (simp add: metricLog_def case_prod_unfold)
  moreover have "map error ?new = map (\<lambda>(n, p). errorText p) (errored (zip nodes ps))"
    by (simp add: metricLog_def case_prod_unfold)
  moreover have "\<forall>m\<in>set ?new. resultCode m = 500 \<and> metricMethod m = checkType
                 \<and> bytes m =
                     (case checkType of
                        chain_check \<Rightarrow> length ''WRONG CHAIN''
                      | sync_check \<Rightarrow> length (if error m = [] then ''SYNC-CHECK'' else error m))"
    by (auto simp: metricLog_def metricBytes_def split: Check.splits)
  ultimately show ?thesis by blast
qed

theorem C2_counterexample:
  "probed (snd (check sessionHash onChain checker 0 [nodeA] ''{}'' request emptyWorld)) = [nodeA]
   \<and> metrics (snd (check sessionHash onChain checker 0 [nodeA] ''{}'' request emptyWorld)) = []"
  by (simp add: eval_defs example_defs)

theorem C2_witness:
  "map serviceNode
     (metrics (snd (filterNodes checker 0 sync_check [nodeA, nodeB]
        [Rejected (ThrownString ''timeout''), onChain nodeB] request emptyWorld))) = [''aa'']
   \<and> map bytes
     (metrics (snd (filterNodes checker 0 sync_check [nodeA, nodeB]
        [Rejected (ThrownString ''timeout''), onChain nodeB] request emptyWorld))) = [7]"
proof -
  have l: "length [Rejected (ThrownString ''timeout''), onChain nodeB] = length [nodeA, nodeB]"
    by simp
  from C2_one_record_per_error_outcome[OF l surjective_pairing, of checker 0 sync_check request emptyWorld]
  show ?thesis
    by (auto simp: errored_def errorText_def failure_def stringified_def onChain_def nodeA_def
          emptyWorld_def)
qed

subsection \<open>Cached results\<close>

text \<open>
  C3. The failing input of the chain checker: the store holds the empty list for the key
  of the session, as a round in which no node passed leaves it. \<^verbatim>\<open>cacheNodes\<close> finds the
  entry and returns the empty list of nodes, and \<^verbatim>\<open>check\<close>, which returns the cached nodes
  only when there is at least one, probes both nodes again and returns them.
\<close>

theorem C3_empty_cached_result_is_probed_again:
  "chainKey sessionHash checker request = ''chain-check-0021aabb''
   \<and> redis_get (redis emptyResultWorld) 5 ''chain-check-0021aabb'' = Some ''[]''
   \<and> JSON_parse ''[]'' = Some []
   \<and> cacheNodes 5 [nodeA, nodeB] ''chain-check-0021aabb'' (redis emptyResultWorld)
        = (Inr [], redis emptyResultWorld)
   \<and> fst (check sessionHash onChain checker 5 [nodeA, nodeB] ''{}'' request emptyResultWorld)
        = Inr [nodeA, nodeB]
   \<and> probed (snd (check sessionHash onChain checker 5 [nodeA, nodeB] ''{}'' request emptyResultWorld))
        = [nodeA, nodeB]"
  by (simp add: eval_defs example_defs chainKey_def emptyResultWorld_def JSON_parse_def)

subsection \<open>Returned lists and the input list\<close>

lemma cacheNodes_subseq: "cacheNodes now nodes k r = (Inr l, r') \<Longrightarrow> subseq l nodes"
  by (auto simp: cacheNodes_def Let_def split: if_splits option.splits)

lemma survivors_filter:
  assumes "\<forall>n\<in>set nodes. \<forall>v. chain n = Fulfilled v \<longrightarrow> node v = n"
  shows "survivors chain nodes = filter (\<lambda>n. passes (chain n)) nodes"
  using assms
  by (induction nodes) (auto simp: survivors_def kept_def passes_def split: PromiseSettledResult.splits)

lemma check_cases:
  assumes "check h chain this now nodes dat req w = (Inr res, w')"
  shows "(\<exists>r1. cacheNodes now nodes (chainKey h this req) (redis w) = (Inr res, r1) \<and> res \<noteq> [])
         \<or> res = survivors chain nodes"
  using assms
  by (auto simp: check_def chainKey_def Let_def filterNodes_eq survivors_def comp_def
           split: prod.splits sum.splits if_splits)

lemma consensusFilter_subseq:
  "consensusFilter sha256 now nodes bc r = (Inr res, nodes', r') \<Longrightarrow> subseq res (sortNodes nodes)"
  by (auto simp: consensusFilter_def Let_def split: if_splits option.splits)

text \<open>
  C4. The list \<^verbatim>\<open>check\<close> returns is a subsequence of its input list, when every fulfilled
  outcome of the prober names the node it was asked about. The list \<^verbatim>\<open>consensusFilter\<close>
  returns is a subset of its input list and a subsequence of that list sorted by public
  key, not of the list as the caller supplied it.
\<close>

theorem C4_returned_lists_are_sublists:
  "(check h chain this now nodes dat req w = (Inr res, w')
      \<and> (\<forall>n\<in>set nodes. \<forall>v. chain n = Fulfilled v \<longrightarrow> node v = n)
      \<longrightarrow> subseq res nodes)
   \<and> (consensusFilter sha256 now nodes bc r = (Inr sres, nodes', r')
      \<longrightarrow> subseq sres (sort_key publicKey nodes) \<and> set sres \<subseteq> set nodes)"
proof (intro conjI impI)
  assume a: "check h chain this now nodes dat req w = (Inr res, w')
      \<and> (\<forall>n\<in>set nodes. \<forall>v. chain n = Fulfilled v \<longrightarrow> node v = n)"
  from check_cases[OF a[THEN conjunct1]] show "subseq res nodes"
  proof
    assume "\<exists>r1. cacheNodes now nodes (chainKey h this req) (redis w) = (Inr res, r1) \<and> res \<noteq> []"
    then show ?thesis by (auto dest: cacheNodes_subseq)
  next
    assume "res = survivors chain nodes"
    with a show ?thesis by (simp add: survivors_filter)
  qed
next
  assume b: "consensusFilter sha256 now nodes bc r = (Inr sres, nodes', r')"
  then show s: "subseq sres (sort_key publicKey nodes)"
    by (auto dest: consensusFilter_subseq simp: sortNodes_def)
  have "x \<in> set (sort_key publicKey nodes)" if "x \<in> set sres" for x
    using s that by (rule list_emb_set) simp
  then show "set sres \<subseteq> set nodes" by auto
qed

theorem C4_counterexample:
  "fst (consensusFilter (\<lambda>s. s) 0 [nodeB, nodeA] ''0021'' Map.empty) = Inr [nodeA, nodeB]
   \<and> \<not> subseq [nodeA, nodeB] [nodeB, nodeA]"
  by (simp add: consensusFilter_def sortNodes_def syncedNodesKey_def redis_get_def redis_set_def
        truthy_def Let_def nodeA_def nodeB_def)

theorem C4_witness:
  "fst (check sessionHash onlyB checker 0 [nodeA, nodeB] ''{}'' request emptyWorld) = Inr [nodeB]
   \<and> subseq [nodeB] [nodeA, nodeB]
   \<and> fst (consensusFilter (\<lambda>s. s) 0 [nodeB, nodeA] ''0021'' Map.empty) = Inr [nodeA, nodeB]
   \<and> subseq [nodeA, nodeB] (sort_key publicKey [nodeB, nodeA])
   \<and> set [nodeA, nodeB] \<subseteq> set [nodeB, nodeA]"
proof -
  have f1: "fst (check sessionHash onlyB checker 0 [nodeA, nodeB] ''{}'' request emptyWorld) = Inr [nodeB]"
    by (simp add: eval_defs example_defs onlyB_def)
  then have c: "check sessionHash onlyB checker 0 [nodeA, nodeB] ''{}'' request emptyWorld
             = (Inr [nodeB], snd (check sessionHash onlyB checker 0 [nodeA, nodeB] ''{}'' request emptyWorld))"
    by (metis prod.collapse)
  have n: "\<forall>n\<in>set [nodeA, nodeB]. \<forall>v. onlyB n = Fulfilled v \<longrightarrow> node v = n"
    by (simp add: onlyB_def onChain_def offChain_def nodeA_def nodeB_def)
  have f2: "fst (consensusFilter (\<lambda>s. s) 0 [nodeB, nodeA] ''0021'' Map.empty) = Inr [nodeA, nodeB]"
    by (simp add: consensusFilter_def sortNodes_def syncedNodesKey_def redis_get_def redis_set_def
          truthy_def Let_def nodeA_def nodeB_def)
  then have s: "consensusFilter (\<lambda>s. s) 0 [nodeB, nodeA] ''0021'' Map.empty
             = (Inr [nodeA, nodeB],
                fst (snd (consensusFilter (\<lambda>s. s) 0 [nodeB, nodeA] ''0021'' Map.empty)),
                snd (snd (consensusFilter (\<lambda>s. s) 0 [nodeB, nodeA] ''0021'' Map.empty)))"
    by (metis prod.collapse)
  have t1: "subseq [nodeB] [nodeA, nodeB]"
    by (rule C4_returned_lists_are_sublists[THEN conjunct1, rule_format, OF conjI, OF c n])
  have t2: "subseq [nodeA, nodeB] (sort_key publicKey [nodeB, nodeA])
      \<and> set [nodeA, nodeB] \<subseteq> set [nodeB, nodeA]"
    by (rule C4_returned_lists_are_sublists[THEN conjunct2, rule_format, OF s])
  from f1 f2 t1 t2 show ?thesis by blast
qed

subsection \<open>Two calls within the expiry of the cached result\<close>

lemma filter_image_filter:
  assumes "distinct (map f xs)"
  shows "filter (\<lambda>x. f x \<in> f ` set (filter P xs)) xs = filter P xs"
proof (rule filter_cong[OF refl])
  fix x assume x: "x \<in> set xs"
  from assms have inj: "inj_on f (set xs)" by (simp add: distinct_map)
  show "(f x \<in> f ` set (filter P xs)) = P x"
  proof
    assume "f x \<in> f ` set (filter P xs)"
    then obtain y where y: "y \<in> set xs" "P y" "f x = f y" by auto
    with inj x have "x = y" by (auto dest: inj_onD)
    with y show "P x" by simp
  next
    assume "P x"
    with x show "f x \<in> f ` set (filter P xs)" by auto
  qed
qed

text \<open>
  C5. Let a call of \<^verbatim>\<open>check\<close> find neither a cached value nor a lock, on nodes with
  pairwise distinct public keys and a prober whose fulfilled outcomes name the node asked
  about, and let it return at least one node. Then it probed every node once, and a
  second call for the same session and nodes less than 600 seconds later returns the same
  list and leaves everything as it was: no probe, no write, no metric record, no
  challenge.
\<close>

theorem C5_second_call_is_served_from_cache:
  assumes fresh: "\<not> truthy (redis_get (redis w) now (chainKey h this req))"
      "\<not> truthy (redis_get (redis w) now (''lock-'' @ chainKey h this req))"
    and first: "check h chain this now nodes dat req w = (r1, w1)"
    and nonempty: "r1 \<noteq> Inr []"
    and window: "now \<le> now'" "now' < now + 600"
    and same: "blockchainID req' = blockchainID req"
    and keys: "distinct (map publicKey nodes)"
    and named: "\<forall>n\<in>set nodes. \<forall>v. chain n = Fulfilled v \<longrightarrow> node v = n"
  shows "\<exists>res. r1 = Inr res
           \<and> probed w1 = probed w @ nodes
           \<and> redis w1 (chainKey h this req)
               = Some \<lparr>val = JSON_stringify (map publicKey res), expiresAt = now + 600\<rparr>
           \<and> check h chain' this now' nodes dat' req' w1 = (r1, w1)"
proof -
  let ?K = "chainKey h this req"
  let ?S = "survivors chain nodes"
  note f = first[unfolded check_fresh[OF fresh]]
  from f have r1: "r1 = Inr ?S" by simp
  with nonempty have S: "?S \<noteq> []" by simp
  from f have p: "probed w1 = probed w @ nodes" by auto
  from f S have e: "redis w1 ?K = Some \<lparr>val = JSON_stringify (map publicKey ?S), expiresAt = now + 600\<rparr>"
    by (auto simp: redis_set_def)
  with window have g: "redis_get (redis w1) now' ?K = Some (JSON_stringify (map publicKey ?S))"
    by (simp add: redis_get_def)
  have "filter (\<lambda>n. publicKey n \<in> set (map publicKey ?S)) nodes = ?S"
    using filter_image_filter[OF keys, of "\<lambda>n. passes (chain n)"]
    by (simp add: survivors_filter[OF named])
  with cacheNodes_cached[OF g JSON_stringify_truthy JSON_parse_stringify, of nodes]
  have c: "cacheNodes now' nodes ?K (redis w1) = (Inr ?S, redis w1)" by simp
  have K': "chainKey h this req' = ?K" by (simp add: chainKey_def same)
  have "check h chain' this now' nodes dat' req' w1 = (Inr ?S, w1)"
    using c S by (simp add: check_def Let_def K'[unfolded chainKey_def] chainKey_def same)
  with p r1 e show ?thesis by simp
qed

theorem C5_counterexample:
  "probed (snd (check sessionHash offChain checker 0 [nodeA] ''{}'' request emptyWorld)) = [nodeA]
   \<and> probed (snd (check sessionHash offChain checker 100 [nodeA] ''{}'' request
        (snd (check sessionHash offChain checker 0 [nodeA] ''{}'' request emptyWorld))))
      = [nodeA, nodeA]
   \<and> (0::nat) \<le> 100 \<and> (100::nat) < 0 + 600"
  by (simp add: eval_defs example_defs)

theorem C5_witness:
  "probed (snd (check sessionHash onlyB checker 0 [nodeA, nodeB] ''{}'' request emptyWorld))
     = probed emptyWorld @ [nodeA, nodeB]
   \<and> fst (check sessionHash onlyB checker 0 [nodeA, nodeB] ''{}'' request emptyWorld) = Inr [nodeB]
   \<and> redis (snd (check sessionHash onlyB checker 0 [nodeA, nodeB] ''{}'' request emptyWorld))
        (chainKey sessionHash checker request)
      = Some \<lparr>val = JSON_stringify (map publicKey [nodeB]), expiresAt = 0 + 600\<rparr>
   \<and> check sessionHash offChain checker 599 [nodeA, nodeB] ''{}'' request
        (snd (check sessionHash onlyB checker 0 [nodeA, nodeB] ''{}'' request emptyWorld))
      = (Inr [nodeB], snd (check sessionHash onlyB checker 0 [nodeA, nodeB] ''{}'' request emptyWorld))"
proof -
  have a: "\<not> truthy (redis_get (redis emptyWorld) 0 (chainKey sessionHash checker request))"
    by (simp add: truthy_def redis_get_def emptyWorld_def)
  have b: "\<not> truthy (redis_get (redis emptyWorld) 0 (''lock-'' @ chainKey sessionHash checker request))"
    by (simp add: truthy_def redis_get_def emptyWorld_def)
  have f: "fst (check sessionHash onlyB checker 0 [nodeA, nodeB] ''{}'' request emptyWorld) = Inr [nodeB]"
    by (simp add: eval_defs example_defs onlyB_def)
  then have c: "check sessionHash onlyB checker 0 [nodeA, nodeB] ''{}'' request emptyWorld
             = (Inr [nodeB], snd (check sessionHash onlyB checker 0 [nodeA, nodeB] ''{}'' request emptyWorld))"
    by (metis prod.collapse)
  have n: "\<forall>n\<in>set [nodeA, nodeB]. \<forall>v. onlyB n = Fulfilled v \<longrightarrow> node v = n"
    by (simp add: onlyB_def onChain_def offChain_def nodeA_def nodeB_def)
  have d: "distinct (map publicKey [nodeA, nodeB])" by (simp add: nodeA_def nodeB_def)
  have e: "Inr [nodeB] \<noteq> (Inr [] :: exn + Node list)" by simp
  have w: "(0::nat) \<le> 599" "(599::nat) < 0 + 600" by simp_all
  from C5_second_call_is_served_from_cache[OF a b c e w refl d n, of offChain "''{}''"] f
  show ?thesis by blast
qed

subsection \<open>The exits of \<^verbatim>\<open>consensusFilter\<close>\<close>

lemma lock_key_differs: "''lock-'' @ k \<noteq> k"
proof
  assume "''lock-'' @ k = k"
  then have "length (''lock-'' @ k) = length k" by (rule arg_cong)
  then show False by simp
qed

lemma consensusFilter_locked:
  assumes "\<not> truthy (redis_get r now (syncedNodesKey sha256 bc (sort_key publicKey nodes)))"
    and "truthy (redis_get r now (''lock-'' @ syncedNodesKey sha256 bc (sort_key publicKey nodes)))"
  shows "consensusFilter sha256 now nodes bc r = (Inr (sort_key publicKey nodes), sort_key publicKey nodes, r)"
  using assms by (simp add: consensusFilter_def sortNodes_def Let_def)

lemma consensusFilter_fresh:
  assumes "\<not> truthy (redis_get r now (syncedNodesKey sha256 bc (sort_key publicKey nodes)))"
    and "\<not> truthy (redis_get r now (''lock-'' @ syncedNodesKey sha256 bc (sort_key publicKey nodes)))"
  shows "consensusFilter sha256 now nodes bc r =
     (Inr (sort_key publicKey nodes), sort_key publicKey nodes,
      r(''lock-'' @ syncedNodesKey sha256 bc (sort_key publicKey nodes)
          \<mapsto> \<lparr>val = ''true'', expiresAt = now + 10\<rparr>,
        syncedNodesKey sha256 bc (sort_key publicKey nodes)
          \<mapsto> \<lparr>val = JSON_stringify (map publicKey (sort_key publicKey nodes)),
              expiresAt = now + 300\<rparr>))"
  using assms by (simp add: consensusFilter_def sortNodes_def Let_def redis_set_def)

lemma consensusFilter_array: "fst (snd (consensusFilter sha256 now nodes bc r)) = sort_key publicKey nodes"
  by (simp add: consensusFilter_def sortNodes_def Let_def split: option.splits)

lemma consensusFilter_sorted:
  "fst (consensusFilter sha256 now nodes bc r) = Inr l \<Longrightarrow> sorted (map publicKey l)"
  by (auto simp: consensusFilter_def sortNodes_def Let_def sorted_filter
           split: option.splits if_splits)

subsection \<open>A check in progress\<close>

text \<open>
  C6. When the lock of the computed key is set and nothing is cached under the key, the
  chain checker returns a non-empty input list as it is and changes nothing: no probe, no
  write, no metric record, no challenge, no error. The sync checker returns every input
  node, in the order of their public keys (the caller's array, sorted in place), writes
  nothing and raises no error.
\<close>

theorem C6_lock_returns_all_nodes:
  "(\<not> truthy (redis_get (redis w) now (chainKey h this req))
      \<and> truthy (redis_get (redis w) now (''lock-'' @ chainKey h this req))
      \<and> nodes \<noteq> []
      \<longrightarrow> check h chain this now nodes dat req w = (Inr nodes, w))
   \<and> (\<not> truthy (redis_get r now (syncedNodesKey sha256 bc (sort_key publicKey nodes)))
      \<and> truthy (redis_get r now (''lock-'' @ syncedNodesKey sha256 bc (sort_key publicKey nodes)))
      \<longrightarrow> consensusFilter sha256 now nodes bc r
            = (Inr (sort_key publicKey nodes), sort_key publicKey nodes, r)
          \<and> mset (sort_key publicKey nodes) = mset nodes)"
proof (intro conjI impI)
  assume a: "\<not> truthy (redis_get (redis w) now (chainKey h this req))
      \<and> truthy (redis_get (redis w) now (''lock-'' @ chainKey h this req))
      \<and> nodes \<noteq> []"
  then have "cacheNodes now nodes (chainKey h this req) (redis w) = (Inr nodes, redis w)"
    by (simp add: cacheNodes_locked)
  with a show "check h chain this now nodes dat req w = (Inr nodes, w)"
    by (simp add: check_def chainKey_def Let_def)
next
  assume "\<not> truthy (redis_get r now (syncedNodesKey sha256 bc (sort_key publicKey nodes)))
      \<and> truthy (redis_get r now (''lock-'' @ syncedNodesKey sha256 bc (sort_key publicKey nodes)))"
  then show "consensusFilter sha256 now nodes bc r
            = (Inr (sort_key publicKey nodes), sort_key publicKey nodes, r)"
    by (simp add: consensusFilter_locked)
next
  show "mset (sort_key publicKey nodes) = mset nodes" by simp
qed

theorem C6_counterexample:
  "redis_get (redis lockedWorld) 5 (chainKey sessionHash checker request) = None
   \<and> redis_get (redis lockedWorld) 5 (''lock-'' @ chainKey sessionHash checker request) = Some ''true''
   \<and> redis lockedWorld ''chain-check-0021aabb'' = None
   \<and> redis (snd (check sessionHash onChain checker 5 [] ''{}'' request lockedWorld)) ''chain-check-0021aabb''
        = Some \<lparr>val = ''[]'', expiresAt = 35\<rparr>
   \<and> redis_get lockedSyncStore 5 (syncedNodesKey (\<lambda>s. s) ''0021'' (sort_key publicKey [nodeB, nodeA])) = None
   \<and> redis_get lockedSyncStore 5 (''lock-'' @ syncedNodesKey (\<lambda>s. s) ''0021'' (sort_key publicKey [nodeB, nodeA]))
        = Some ''true''
   \<and> fst (consensusFilter (\<lambda>s. s) 5 [nodeB, nodeA] ''0021'' lockedSyncStore) = Inr [nodeA, nodeB]
   \<and> [nodeA, nodeB] \<noteq> [nodeB, nodeA]"
  by (simp add: eval_defs example_defs chainKey_def lockedWorld_def lockedSyncStore_def
        consensusFilter_def sortNodes_def syncedNodesKey_def JSON_stringify_def)

theorem C6_witness:
  "check sessionHash offChain checker 5 [nodeA, nodeB] ''{}'' request lockedWorld
     = (Inr [nodeA, nodeB], lockedWorld)
   \<and> consensusFilter (\<lambda>s. s) 5 [nodeB, nodeA] ''0021'' lockedSyncStore
     = (Inr (sort_key publicKey [nodeB, nodeA]), sort_key publicKey [nodeB, nodeA], lockedSyncStore)
   \<and> mset (sort_key publicKey [nodeB, nodeA]) = mset [nodeB, nodeA]"
proof -
  have a: "\<not> truthy (redis_get (redis lockedWorld) 5 (chainKey sessionHash checker request))
      \<and> truthy (redis_get (redis lockedWorld) 5 (''lock-'' @ chainKey sessionHash checker request))
      \<and> [nodeA, nodeB] \<noteq> []"
    by (simp add: truthy_def redis_get_def lockedWorld_def chainKey_def example_defs)
  have b: "\<not> truthy (redis_get lockedSyncStore 5 (syncedNodesKey (\<lambda>s. s) ''0021'' (sort_key publicKey [nodeB, nodeA])))
      \<and> truthy (redis_get lockedSyncStore 5 (''lock-'' @ syncedNodesKey (\<lambda>s. s) ''0021'' (sort_key publicKey [nodeB, nodeA])))"
    by (simp add: truthy_def redis_get_def lockedSyncStore_def syncedNodesKey_def nodeA_def nodeB_def)
  from C6_lock_returns_all_nodes[THEN conjunct1, rule_format, OF a]
    C6_lock_returns_all_nodes[THEN conjunct2, rule_format, OF b]
  show ?thesis by blast
qed

subsection \<open>A fresh round of the sync checker\<close>

text \<open>
  C7. When the sync checker finds neither a cached value nor a lock, it returns every
  input node (sorted by public key), and the value it caches under the key is the JSON
  array of all their public keys: no node is compared with anything.
\<close>

theorem C7_fresh_sync_round_passes_every_node:
  assumes "\<not> truthy (redis_get r now (syncedNodesKey sha256 bc (sort_key publicKey nodes)))"
    and "\<not> truthy (redis_get r now (''lock-'' @ syncedNodesKey sha256 bc (sort_key publicKey nodes)))"
    and "consensusFilter sha256 now nodes bc r = (res, nodes', r')"
  shows "res = Inr (sort_key publicKey nodes)
         \<and> mset (sort_key publicKey nodes) = mset nodes
         \<and> redis_get r' now (syncedNodesKey sha256 bc (sort_key publicKey nodes))
             = Some (JSON_stringify (map publicKey (sort_key publicKey nodes)))
         \<and> JSON_parse (JSON_stringify (map publicKey (sort_key publicKey nodes)))
             = Some (map publicKey (sort_key publicKey nodes))
         \<and> set (map publicKey (sort_key publicKey nodes)) = publicKey ` set nodes"
  using assms(3) unfolding consensusFilter_fresh[OF assms(1,2)]
  by (auto simp: redis_get_def JSON_parse_stringify)

theorem C7_witness:
  "fst (consensusFilter (\<lambda>s. s) 0 [nodeB, nodeA] ''0021'' Map.empty) = Inr (sort_key publicKey [nodeB, nodeA])
   \<and> mset (sort_key publicKey [nodeB, nodeA]) = mset [nodeB, nodeA]
   \<and> JSON_parse (JSON_stringify (map publicKey (sort_key publicKey [nodeB, nodeA])))
       = Some (map publicKey (sort_key publicKey [nodeB, nodeA]))
   \<and> set (map publicKey (sort_key publicKey [nodeB, nodeA])) = publicKey ` set [nodeB, nodeA]"
proof -
  have a: "\<not> truthy (redis_get Map.empty 0 (syncedNodesKey (\<lambda>s. s) ''0021'' (sort_key publicKey [nodeB, nodeA])))"
    by (simp add: truthy_def redis_get_def)
  have b: "\<not> truthy (redis_get Map.empty 0 (''lock-'' @ syncedNodesKey (\<lambda>s. s) ''0021'' (sort_key publicKey [nodeB, nodeA])))"
    by (simp add: truthy_def redis_get_def)
  have t: "consensusFilter (\<lambda>s. s) 0 [nodeB, nodeA] ''0021'' Map.empty
      = (fst (consensusFilter (\<lambda>s. s) 0 [nodeB, nodeA] ''0021'' Map.empty),
         fst (snd (consensusFilter (\<lambda>s. s) 0 [nodeB, nodeA] ''0021'' Map.empty)),
         snd (snd (consensusFilter (\<lambda>s. s) 0 [nodeB, nodeA] ''0021'' Map.empty)))"
    by simp
  from C7_fresh_sync_round_passes_every_node[OF a b t]
  show ?thesis by blast
qed

lemma join_Cons: "join sep (x # xs) = x @ concat (map (\<lambda>y. sep @ y) xs)"
  by (induction xs arbitrary: x) simp_all

lemma json_quote_body_cancel:
  assumes "json_quote_body a @ CHR 0x22 # t = json_quote_body b @ CHR 0x22 # t'"
  shows "a = b \<and> t = t'"
proof -
  from assms have "unquote (json_quote_body a @ CHR 0x22 # t) = unquote (json_quote_body b @ CHR 0x22 # t')"
    by (rule arg_cong)
  then show ?thesis by (simp only: unquote_body option.inject prod.inject)
qed

lemma nodeJSON_cancel:
  assumes "nodeJSON n @ t = nodeJSON m @ t'"
  shows "serviceURL n = serviceURL m \<and> serviceDomain n = serviceDomain m \<and> t = t'"
proof -
  from assms have
    "json_quote_body (serviceURL n) @ CHR 0x22 #
       ('',\"serviceDomain\":'' @ JSON_quote (serviceDomain n) @ ''}'' @ t)
     = json_quote_body (serviceURL m) @ CHR 0x22 #
       ('',\"serviceDomain\":'' @ JSON_quote (serviceDomain m) @ ''}'' @ t')"
    by (simp add: nodeJSON_def JSON_quote_def)
  from json_quote_body_cancel[OF this] have u: "serviceURL n = serviceURL m"
    and "json_quote_body (serviceDomain n) @ CHR 0x22 # (''}'' @ t)
       = json_quote_body (serviceDomain m) @ CHR 0x22 # (''}'' @ t')"
    by (simp_all add: JSON_quote_def)
  from json_quote_body_cancel[OF this(2)] u show ?thesis by simp
qed

lemma nodeJSON_starts: "\<exists>t. nodeJSON n = CHR ''{'' # t"
  by (simp add: nodeJSON_def)

lemma nodes_tail_cancel:
  assumes "concat (map (\<lambda>y. '','' @ nodeJSON y) ns) @ '']''
         = concat (map (\<lambda>y. '','' @ nodeJSON y) ms) @ '']''"
  shows "map serviceURL ns = map serviceURL ms \<and> map serviceDomain ns = map serviceDomain ms"
  using assms
proof (induction ns arbitrary: ms)
  case Nil
  then show ?case by (cases ms) simp_all
next
  case (Cons n ns)
  show ?case
  proof (cases ms)
    case Nil
    with Cons.prems show ?thesis by simp
  next
    case (Cons m ms')
    with Cons.prems have
      "nodeJSON n @ (concat (map (\<lambda>y. '','' @ nodeJSON y) ns) @ '']'')
       = nodeJSON m @ (concat (map (\<lambda>y. '','' @ nodeJSON y) ms') @ '']'')"
      by simp
    from nodeJSON_cancel[OF this] Cons.IH[of ms'] Cons show ?thesis by simp
  qed
qed

lemma nodesJSON_fields:
  "(nodesJSON ns = nodesJSON ms)
     = (map serviceURL ns = map serviceURL ms \<and> map serviceDomain ns = map serviceDomain ms)"
proof
  assume e: "nodesJSON ns = nodesJSON ms"
  show "map serviceURL ns = map serviceURL ms \<and> map serviceDomain ns = map serviceDomain ms"
  proof (cases ns)
    case Nil
    show ?thesis
    proof (cases ms)
      case Nil
      with \<open>ns = []\<close> show ?thesis by simp
    next
      case (Cons m ms')
      obtain t where "nodeJSON m = CHR ''{'' # t" using nodeJSON_starts by blast
      with e \<open>ns = []\<close> Cons show ?thesis by (simp add: nodesJSON_def join_Cons)
    qed
  next
    case (Cons n ns')
    show ?thesis
    proof (cases ms)
      case Nil
      obtain t where "nodeJSON n = CHR ''{'' # t" using nodeJSON_starts by blast
      with e Cons Nil show ?thesis by (simp add: nodesJSON_def join_Cons)
    next
      case c: (Cons m ms')
      from e Cons c have
        "nodeJSON n @ (concat (map (\<lambda>y. '','' @ nodeJSON y) ns') @ '']'')
         = nodeJSON m @ (concat (map (\<lambda>y. '','' @ nodeJSON y) ms') @ '']'')"
        by (simp add: nodesJSON_def join_Cons comp_def)
      from nodeJSON_cancel[OF this] nodes_tail_cancel[of ns' ms'] Cons c show ?thesis by simp
    qed
  qed
next
  assume a: "map serviceURL ns = map serviceURL ms \<and> map serviceDomain ns = map serviceDomain ms"
  then have "length ns = length ms" by (metis length_map)
  then have "map nodeJSON ns = map nodeJSON ms" using a
    by (induction ns ms rule: list_induct2) (simp_all add: nodeJSON_def)
  then show "nodesJSON ns = nodesJSON ms" by (simp add: nodesJSON_def)
qed

lemma consensusFilter_permuted:
  assumes "mset nodes2 = mset nodes" "distinct (map publicKey nodes)"
  shows "consensusFilter digest now nodes2 bc r = consensusFilter digest now nodes bc r"
proof -
  from assms(2) have "inj_on publicKey (set nodes)" by (simp add: distinct_map)
  moreover from assms(1) have "set nodes2 = set nodes" by (rule mset_eq_setD)
  ultimately have "inj_on publicKey (set nodes2)" by simp
  with assms(1) have "sort_key publicKey nodes2 = sort_key publicKey nodes"
    by (rule sort_key_eq_sort_key)
  then show ?thesis by (simp add: consensusFilter_def sortNodes_def)
qed

lemma consensusFilter_cached:
  assumes "redis_get r now (syncedNodesKey digest bc (sort_key publicKey nodes)) = Some s"
    and "s \<noteq> []" and "JSON_parse s = Some ks"
  shows "consensusFilter digest now nodes bc r
     = (Inr (filter (\<lambda>n. publicKey n \<in> set ks) (sort_key publicKey nodes)), sort_key publicKey nodes, r)"
  using assms by (simp add: consensusFilter_def sortNodes_def Let_def truthy_def)

text \<open>
  C8. The key of the sync check is the blockchain identifier, a hyphen, and the digest of
  the JSON text of the nodes sorted by public key. That text has the public key left out:
  two lists of nodes have the same text exactly when they agree, node by node, on
  \<^verbatim>\<open>serviceURL\<close> and \<^verbatim>\<open>serviceDomain\<close>. The nodes are sorted before they are hashed: lists
  with the same nodes, of distinct public keys, in any order give the same call. A value
  cached under the key is the one the call reads. A fresh round stores the public keys of
  the nodes under the key, for 300 seconds, and the lock under \<^verbatim>\<open>lock-\<close> followed by the
  key, for 10 seconds, and writes no other key.
\<close>

theorem C8_sync_key_and_expiries:
  "((nodesJSON ns = nodesJSON ms)
      = (map serviceURL ns = map serviceURL ms \<and> map serviceDomain ns = map serviceDomain ms))
   \<and> (mset nodes2 = mset nodes \<and> distinct (map publicKey nodes)
      \<longrightarrow> consensusFilter digest now nodes2 bc r = consensusFilter digest now nodes bc r)
   \<and> (redis_get r now (bc @ ''-'' @ digest (nodesJSON (sort_key publicKey nodes))) = Some s
        \<and> s \<noteq> [] \<and> JSON_parse s = Some ks
      \<longrightarrow> fst (consensusFilter digest now nodes bc r)
            = Inr (filter (\<lambda>n. publicKey n \<in> set ks) (sort_key publicKey nodes)))
   \<and> (\<not> truthy (redis_get r now (bc @ ''-'' @ digest (nodesJSON (sort_key publicKey nodes))))
      \<and> \<not> truthy (redis_get r now
             (''lock-'' @ bc @ ''-'' @ digest (nodesJSON (sort_key publicKey nodes))))
      \<longrightarrow> snd (snd (consensusFilter digest now nodes bc r))
              (bc @ ''-'' @ digest (nodesJSON (sort_key publicKey nodes)))
            = Some \<lparr>val = JSON_stringify (map publicKey (sort_key publicKey nodes)),
                    expiresAt = now + 300\<rparr>
          \<and> snd (snd (consensusFilter digest now nodes bc r))
              (''lock-'' @ bc @ ''-'' @ digest (nodesJSON (sort_key publicKey nodes)))
            = Some \<lparr>val = ''true'', expiresAt = now + 10\<rparr>
          \<and> (\<forall>k. k \<noteq> bc @ ''-'' @ digest (nodesJSON (sort_key publicKey nodes))
                 \<and> k \<noteq> ''lock-'' @ bc @ ''-'' @ digest (nodesJSON (sort_key publicKey nodes))
                 \<longrightarrow> snd (snd (consensusFilter digest now nodes bc r)) k = r k))"
proof -
  let ?K = "bc @ ''-'' @ digest (nodesJSON (sort_key publicKey nodes))"
  have K: "syncedNodesKey digest bc (sort_key publicKey nodes) = ?K"
    by (simp add: syncedNodesKey_def)
  have one: "(nodesJSON ns = nodesJSON ms)
      = (map serviceURL ns = map serviceURL ms \<and> map serviceDomain ns = map serviceDomain ms)"
    by (rule nodesJSON_fields)
  have two: "consensusFilter digest now nodes2 bc r = consensusFilter digest now nodes bc r"
    if "mset nodes2 = mset nodes \<and> distinct (map publicKey nodes)"
    using that by (intro consensusFilter_permuted) simp_all
  have three: "fst (consensusFilter digest now nodes bc r)
            = Inr (filter (\<lambda>n. publicKey n \<in> set ks) (sort_key publicKey nodes))"
    if "redis_get r now ?K = Some s \<and> s \<noteq> [] \<and> JSON_parse s = Some ks"
    using that consensusFilter_cached[of r now digest bc nodes s ks] by (simp add: K)
  have e: "snd (snd (consensusFilter digest now nodes bc r))
      = r(''lock-'' @ ?K \<mapsto> \<lparr>val = ''true'', expiresAt = now + 10\<rparr>,
          ?K \<mapsto> \<lparr>val = JSON_stringify (map publicKey (sort_key publicKey nodes)), expiresAt = now + 300\<rparr>)"
    if "\<not> truthy (redis_get r now ?K) \<and> \<not> truthy (redis_get r now (''lock-'' @ ?K))"
    using that consensusFilter_fresh[of r now digest bc nodes] by (simp add: K)
  have four: "snd (snd (consensusFilter digest now nodes bc r)) ?K
            = Some \<lparr>val = JSON_stringify (map publicKey (sort_key publicKey nodes)),
                    expiresAt = now + 300\<rparr>
          \<and> snd (snd (consensusFilter digest now nodes bc r)) (''lock-'' @ ?K)
            = Some \<lparr>val = ''true'', expiresAt = now + 10\<rparr>
          \<and> (\<forall>k. k \<noteq> ?K \<and> k \<noteq> ''lock-'' @ ?K
                 \<longrightarrow> snd (snd (consensusFilter digest now nodes bc r)) k = r k)"
    if f: "\<not> truthy (redis_get r now ?K) \<and> \<not> truthy (redis_get r now (''lock-'' @ ?K))"
    unfolding e[OF f] using lock_key_differs[of ?K] by simp
  show ?thesis
  proof (intro conjI impI)
    show "(nodesJSON ns = nodesJSON ms)
      = (map serviceURL ns = map serviceURL ms \<and> map serviceDomain ns = map serviceDomain ms)"
      by (rule one)
  next
    assume "mset nodes2 = mset nodes \<and> distinct (map publicKey nodes)"
    then show "consensusFilter digest now nodes2 bc r = consensusFilter digest now nodes bc r"
      by (rule two)
  next
    assume "redis_get r now ?K = Some s \<and> s \<noteq> [] \<and> JSON_parse s = Some ks"
    then show "fst (consensusFilter digest now nodes bc r)
            = Inr (filter (\<lambda>n. publicKey n \<in> set ks) (sort_key publicKey nodes))"
      by (rule three)
  next
    assume f: "\<not> truthy (redis_get r now ?K) \<and> \<not> truthy (redis_get r now (''lock-'' @ ?K))"
    from four[OF f] show "snd (snd (consensusFilter digest now nodes bc r)) ?K
            = Some \<lparr>val = JSON_stringify (map publicKey (sort_key publicKey nodes)),
                    expiresAt = now + 300\<rparr>"
      by (rule conjunct1)
    from four[OF f] show "snd (snd (consensusFilter digest now nodes bc r)) (''lock-'' @ ?K)
            = Some \<lparr>val = ''true'', expiresAt = now + 10\<rparr>"
      by (elim conjE)
    from four[OF f] show "\<forall>k. k \<noteq> ?K \<and> k \<noteq> ''lock-'' @ ?K
                 \<longrightarrow> snd (snd (consensusFilter digest now nodes bc r)) k = r k"
      by (elim conjE)
  qed
qed

lemma example_sync_key: \<open>''0021'' @ ''-'' @ (\<lambda>s. s) (nodesJSON (sort_key publicKey [nodeB, nodeA]))
      = ''0021-[{"serviceURL":"https://a.example","serviceDomain":"a.example"},{"serviceURL":"https://b.example","serviceDomain":"b.example"}]''\<close>
    by (simp add: nodesJSON_def nodeJSON_def JSON_quote_def json_quote_body_def json_escape_def
          nodeA_def nodeB_def)
lemma example_sync_value: \<open>JSON_stringify (map publicKey (sort_key publicKey [nodeB, nodeA])) = ''["aa","bb"]''\<close>
    by (simp add: JSON_stringify_def JSON_quote_def json_quote_body_def json_escape_def
          nodeA_def nodeB_def)

theorem C8_witness:
  \<open>snd (snd (consensusFilter (\<lambda>s. s) 7 [nodeB, nodeA] ''0021'' Map.empty))
       ''0021-[{"serviceURL":"https://a.example","serviceDomain":"a.example"},{"serviceURL":"https://b.example","serviceDomain":"b.example"}]''
     = Some \<lparr>val = ''["aa","bb"]'', expiresAt = 307\<rparr>
   \<and> snd (snd (consensusFilter (\<lambda>s. s) 7 [nodeB, nodeA] ''0021'' Map.empty))
       (''lock-'' @ ''0021-[{"serviceURL":"https://a.example","serviceDomain":"a.example"},{"serviceURL":"https://b.example","serviceDomain":"b.example"}]'')
     = Some \<lparr>val = ''true'', expiresAt = 17\<rparr>\<close>
proof -
  have a: "\<not> truthy (redis_get Map.empty 7
             (''0021'' @ ''-'' @ (\<lambda>s. s) (nodesJSON (sort_key publicKey [nodeB, nodeA]))))
      \<and> \<not> truthy (redis_get Map.empty 7
             (''lock-'' @ ''0021'' @ ''-'' @ (\<lambda>s. s) (nodesJSON (sort_key publicKey [nodeB, nodeA]))))"
    by (simp add: truthy_def redis_get_def)
  have t: "(7::nat) + 300 = 307" "(7::nat) + 10 = 17" by simp_all
  note r = C8_sync_key_and_expiries[where digest = "\<lambda>s. s" and now = 7 and nodes = "[nodeB, nodeA]"
      and bc = "''0021''" and r = Map.empty,
      THEN conjunct2, THEN conjunct2, THEN conjunct2, rule_format, OF a, unfolded example_sync_key example_sync_value t]
  from r[THEN conjunct1] r[THEN conjunct2, THEN conjunct1] show ?thesis by (rule conjI)
qed

subsection \<open>The relay allowance of a session\<close>












subsection \<open>The caller's array\<close>

text \<open>
  C10. Every call of \<^verbatim>\<open>consensusFilter\<close> leaves the caller's array sorted by public key,
  with the same nodes; an array that was not sorted has changed. A list the call returns
  is a subsequence of the sorted array, so it is in the order of the public keys.
\<close>

theorem C10_sync_sorts_the_callers_array:
  assumes "consensusFilter sha256 now nodes bc r = (res, nodes', r')"
  shows "nodes' = sort_key publicKey nodes
         \<and> sorted (map publicKey nodes')
         \<and> mset nodes' = mset nodes
         \<and> (\<not> sorted (map publicKey nodes) \<longrightarrow> nodes' \<noteq> nodes)
         \<and> (\<forall>l. res = Inr l \<longrightarrow> subseq l nodes' \<and> sorted (map publicKey l))"
proof -
  from assms consensusFilter_array[of sha256 now nodes bc r]
  have n: "nodes' = sort_key publicKey nodes" by simp
  have s: "sorted (map publicKey nodes')" by (simp add: n)
  have m: "mset nodes' = mset nodes" by (simp add: n)
  have d: "\<not> sorted (map publicKey nodes) \<longrightarrow> nodes' \<noteq> nodes" using s by auto
  have l: "\<forall>l. res = Inr l \<longrightarrow> subseq l nodes' \<and> sorted (map publicKey l)"
    using assms consensusFilter_subseq[of sha256 now nodes bc r _ nodes' r']
      consensusFilter_sorted[of sha256 now nodes bc r]
    by (auto simp: n sortNodes_def)
  from n s m d l show ?thesis by blast
qed

theorem C10_witness:
  "\<not> sorted (map publicKey [nodeB, nodeA])
   \<and> fst (snd (consensusFilter (\<lambda>s. s) 0 [nodeB, nodeA] ''0021'' Map.empty)) = [nodeA, nodeB]
   \<and> [nodeA, nodeB] \<noteq> [nodeB, nodeA]
   \<and> fst (consensusFilter (\<lambda>s. s) 0 [nodeB, nodeA] ''0021'' Map.empty) = Inr [nodeA, nodeB]
   \<and> sorted (map publicKey [nodeA, nodeB])"
proof -
  have u: "\<not> sorted (map publicKey [nodeB, nodeA])" by (simp add: nodeA_def nodeB_def)
  have f: "fst (consensusFilter (\<lambda>s. s) 0 [nodeB, nodeA] ''0021'' Map.empty) = Inr [nodeA, nodeB]"
    by (simp add: consensusFilter_def sortNodes_def syncedNodesKey_def redis_get_def redis_set_def
          truthy_def Let_def nodeA_def nodeB_def)
  have t: "consensusFilter (\<lambda>s. s) 0 [nodeB, nodeA] ''0021'' Map.empty
      = (Inr [nodeA, nodeB],
         fst (snd (consensusFilter (\<lambda>s. s) 0 [nodeB, nodeA] ''0021'' Map.empty)),
         snd (snd (consensusFilter (\<lambda>s. s) 0 [nodeB, nodeA] ''0021'' Map.empty)))"
    using f by (metis prod.collapse)
  have k: "sort_key publicKey [nodeB, nodeA] = [nodeA, nodeB]" by (simp add: nodeA_def nodeB_def)
  from C10_sync_sorts_the_callers_array[OF t] u f k
  show ?thesis by auto
qed

end
